theory Spec2Isabelle
  imports Complex_Main "HOL-Library.Char_ord" "HOL-Library.List_Lexorder"
begin

section \<open>Monte-Carlo comparison of d-separations: \<^verbatim>\<open>graphs_py/gc_one_file.py\<close>\<close>

text \<open>
  The script compares a true graph with an estimated graph: \<open>mc\<close> times it samples a
  predictor and a conditioning set, asks networkx whether predictor and target are
  d-separated in each graph, and then counts the verdict pairs. The script is
  module-level Python; its global variables become the fields of a state record, every
  exception becomes a value \<open>Inl e\<close>, and the libraries it calls (the three random
  generators and \<^verbatim>\<open>nx.d_separated\<close>) are parameters of the model.
\<close>

subsection \<open>Python values, exceptions and list operations\<close>

datatype error = ValueError | IndexError | NodeNotFound | NetworkXError

text \<open>\<^verbatim>\<open>xs[i]\<close> for a Python int \<open>i\<close>: a negative index counts from the end, an index out
  of range raises IndexError.\<close>

definition py_index :: "'a list \<Rightarrow> int \<Rightarrow> error + 'a" where
  "py_index xs i =
     (if 0 \<le> i \<and> i < int (length xs) then Inr (xs ! nat i)
      else if i < 0 \<and> - int (length xs) \<le> i then Inr (xs ! nat (int (length xs) + i))
      else Inl IndexError)"

text \<open>\<^verbatim>\<open>xs.remove(x)\<close>: the first occurrence goes, ValueError when there is none.\<close>

definition py_remove :: "'a list \<Rightarrow> 'a \<Rightarrow> error + 'a list" where
  "py_remove xs x = (if x \<in> set xs then Inr (remove1 x xs) else Inl ValueError)"

text \<open>The two kinds of object the counting loop compares with \<^verbatim>\<open>is True\<close>: a bool and a
  list of bools. \<^verbatim>\<open>o is True\<close> holds for the singleton \<^verbatim>\<open>True\<close> only, never for a list.\<close>

datatype pyobj = PyBool bool | PyList "bool list"

fun py_is_True :: "pyobj \<Rightarrow> bool" where
  "py_is_True (PyBool b) = b"
| "py_is_True (PyList bs) = False"

subsection \<open>Graphs and the libraries\<close>

text \<open>A networkx DiGraph: its nodes in insertion order (\<^verbatim>\<open>list(g.nodes)\<close>) and its edges.\<close>

record 'a digraph =
  nodes :: "'a list"
  edges :: "('a \<times> 'a) list"

text \<open>
  The random sources. The script seeds \<^verbatim>\<open>random\<close>, \<^verbatim>\<open>np.random\<close> and a
  \<^verbatim>\<open>default_rng\<close> generator with the same number; \<open>'s\<close> is the joint state of the three.
  \<^item> \<open>seed_all k\<close>: the state after the three seeding calls with \<open>k\<close>;
  \<^item> \<open>randint s a b\<close>: \<^verbatim>\<open>random.randint(a, b)\<close>;
  \<^item> \<open>np_choice s a p\<close>: \<^verbatim>\<open>np.random.choice(a, p=p)\<close>;
  \<^item> \<open>rng_choice s m size\<close>: \<^verbatim>\<open>rng.choice(m, size=size, replace=False)\<close>.
  Each call returns its value with the next state, or raises.
\<close>

record 's rng_lib =
  seed_all :: "int \<Rightarrow> 's"
  randint :: "'s \<Rightarrow> int \<Rightarrow> int \<Rightarrow> error + (int \<times> 's)"
  np_choice :: "'s \<Rightarrow> nat list \<Rightarrow> rat list \<Rightarrow> error + (nat \<times> 's)"
  rng_choice :: "'s \<Rightarrow> nat \<Rightarrow> nat \<Rightarrow> error + (nat list \<times> 's)"

text \<open>\<^verbatim>\<open>nx.d_separated(G, x, y, z)\<close>: a verdict, or an exception.\<close>

type_synonym 'a d_separated = "'a digraph \<Rightarrow> 'a set \<Rightarrow> 'a set \<Rightarrow> 'a set \<Rightarrow> error + bool"

subsection \<open>The cardinality distribution (lines 84 to 86)\<close>

text \<open>\<^verbatim>\<open>sp.comb(N, k)\<close> and the list \<open>probs\<close>; the floats of the script are read as the
  rationals they approximate.\<close>

definition comb :: "nat \<Rightarrow> nat \<Rightarrow> rat" where
  "comb N k = of_nat (N choose k)"

definition probs :: "nat \<Rightarrow> rat list" where
  "probs n = map (\<lambda>i. comb (n - 1) i / 2 ^ (n - 1)) [0..<n]"

subsection \<open>One trial (lines 89 to 121)\<close>

text \<open>The global variables that live across trials.\<close>

record ('a, 's) state =
  rng :: 's
  predictors :: "'a list"
  d_seps_true :: "bool list"
  d_seps_est :: "bool list"

text \<open>What one trial draws: the rebuilt predictor list \<open>pool\<close> (the script's
  \<open>predictors\<close> before \<open>node\<close> is removed), the index \<open>ind\<close>, the feature of interest
  \<open>node\<close>, the list \<open>deconfounders\<close>, the cardinality \<open>card_drawn\<close> (the script's \<open>card\<close>)
  and the conditioning set.\<close>

record 'a draw =
  pool :: "'a list"
  ind :: int
  node :: 'a
  deconfounders :: "'a list"
  card_drawn :: nat
  cond_set :: "'a set"

text \<open>Lines 114 to 118: the loop that adds \<^verbatim>\<open>deconfounders[index]\<close> for every drawn index.\<close>

fun collect :: "'a list \<Rightarrow> nat list \<Rightarrow> 'a set \<Rightarrow> error + 'a set" where
  "collect dec [] cs = Inr cs"
| "collect dec (index # rest) cs =
     (case py_index dec (int index) of
        Inl e \<Rightarrow> Inl e
      | Inr v \<Rightarrow> collect dec rest (insert v cs))"

text \<open>Lines 89 to 118. \<open>predictors\<close> is assigned a fresh sorted list of the true graph's
  nodes; \<open>deconfounders\<close> is the same list object, so removing \<open>node\<close> from it changes
  \<open>predictors\<close> too.\<close>

definition sample_trial ::
  "'s rng_lib \<Rightarrow> ('a::linorder) digraph \<Rightarrow> 'a \<Rightarrow> nat \<Rightarrow> ('a, 's) state
     \<Rightarrow> error + ('a draw \<times> ('a, 's) state)" where
  "sample_trial L g_true target n st =
     (case py_remove (sort (nodes g_true)) target of
        Inl e \<Rightarrow> Inl e
      | Inr ps \<Rightarrow>
     (case randint L (rng st) 0 (int n - 1) of
        Inl e \<Rightarrow> Inl e
      | Inr (i, s1) \<Rightarrow>
     (case py_index ps i of
        Inl e \<Rightarrow> Inl e
      | Inr nd \<Rightarrow>
     (case py_remove ps nd of
        Inl e \<Rightarrow> Inl e
      | Inr dec \<Rightarrow>
     (case np_choice L s1 [0..<n] (probs n) of
        Inl e \<Rightarrow> Inl e
      | Inr (c, s2) \<Rightarrow>
     (if c = 0 then
        Inr (\<lparr>pool = ps, ind = i, node = nd, deconfounders = dec, card_drawn = c,
               cond_set = {}\<rparr>,
             st\<lparr>rng := s2, predictors := dec\<rparr>)
      else
     (case rng_choice L s2 (n - 1) c of
        Inl e \<Rightarrow> Inl e
      | Inr (indices, s3) \<Rightarrow>
     (case collect dec indices {} of
        Inl e \<Rightarrow> Inl e
      | Inr cs \<Rightarrow>
        Inr (\<lparr>pool = ps, ind = i, node = nd, deconfounders = dec, card_drawn = c,
               cond_set = cs\<rparr>,
             st\<lparr>rng := s3, predictors := dec\<rparr>)))))))))"

text \<open>Lines 105 to 120: the two separation calls with the same arguments, first on the
  true graph, then on the estimated one; each verdict is appended to its list.\<close>

definition trial ::
  "'s rng_lib \<Rightarrow> 'a d_separated \<Rightarrow> ('a::linorder) digraph \<Rightarrow> 'a digraph \<Rightarrow> 'a \<Rightarrow> nat
     \<Rightarrow> ('a, 's) state \<Rightarrow> error + ('a, 's) state" where
  "trial L nx g_true g_est target n st =
     (case sample_trial L g_true target n st of
        Inl e \<Rightarrow> Inl e
      | Inr (dr, st1) \<Rightarrow>
     (case nx g_true {node dr} {target} (cond_set dr) of
        Inl e \<Rightarrow> Inl e
      | Inr vt \<Rightarrow>
     (case nx g_est {node dr} {target} (cond_set dr) of
        Inl e \<Rightarrow> Inl e
      | Inr ve \<Rightarrow>
        Inr (st1\<lparr>d_seps_true := d_seps_true st1 @ [vt],
                 d_seps_est := d_seps_est st1 @ [ve]\<rparr>))))"

text \<open>Lines 87, 88 and 121: \<^verbatim>\<open>while k < mc\<close>.\<close>

function mc_loop ::
  "'s rng_lib \<Rightarrow> 'a d_separated \<Rightarrow> ('a::linorder) digraph \<Rightarrow> 'a digraph \<Rightarrow> 'a \<Rightarrow> nat
     \<Rightarrow> nat \<Rightarrow> nat \<Rightarrow> ('a, 's) state \<Rightarrow> error + ('a, 's) state" where
  "mc_loop L nx g_true g_est target n mc k st =
     (if k < mc then
        (case trial L nx g_true g_est target n st of
           Inl e \<Rightarrow> Inl e
         | Inr st' \<Rightarrow> mc_loop L nx g_true g_est target n mc (k + 1) st')
      else Inr st)"
  by pat_completeness auto
termination
  by (relation "measure (\<lambda>(L, nx, g_true, g_est, target, n, mc, k, st). mc - k)") auto

subsection \<open>Counting (lines 123 to 141)\<close>

record counters =
  tp :: int
  tn :: int
  fp :: int
  fn :: int

text \<open>The loop \<^verbatim>\<open>for i in range(len(d_seps_true))\<close>, run over the list of indices. The
  inner tests are \<^verbatim>\<open>d_seps_true is True\<close>: they look at the list, not at its element.\<close>

fun count_loop :: "bool list \<Rightarrow> bool list \<Rightarrow> nat list \<Rightarrow> counters \<Rightarrow> error + counters" where
  "count_loop ts es [] c = Inr c"
| "count_loop ts es (i # rest) c =
     (case py_index ts (int i) of
        Inl e \<Rightarrow> Inl e
      | Inr vt \<Rightarrow>
     (case py_index es (int i) of
        Inl e \<Rightarrow> Inl e
      | Inr ve \<Rightarrow>
        if vt = ve then
          (if py_is_True (PyList ts) then count_loop ts es rest (c\<lparr>tp := tp c + 1\<rparr>)
           else count_loop ts es rest (c\<lparr>tn := tn c + 1\<rparr>))
        else
          (if py_is_True (PyList ts) then count_loop ts es rest (c\<lparr>fn := fn c + 1\<rparr>)
           else count_loop ts es rest (c\<lparr>fp := fp c + 1\<rparr>))))"

definition confusion :: "bool list \<Rightarrow> bool list \<Rightarrow> error + counters" where
  "confusion ts es =
     count_loop ts es [0..<length ts] \<lparr>tp = 0, tn = 0, fp = 0, fn = 0\<rparr>"

text \<open>The classification rule in the words of the spec (section 4.3), for one trial:
  agreement on "separated" is a TP, agreement on "connected" a TN, a disagreement with
  true verdict "separated" an FN, a disagreement with true verdict "connected" an FP.
  It is what the counting loop is compared with, not a part of the script.\<close>

fun classify_and_accumulate :: "bool \<Rightarrow> bool \<Rightarrow> counters \<Rightarrow> counters" where
  "classify_and_accumulate true_verdict est_verdict c =
     (if true_verdict = est_verdict then
        (if true_verdict then c\<lparr>tp := tp c + 1\<rparr> else c\<lparr>tn := tn c + 1\<rparr>)
      else
        (if true_verdict then c\<lparr>fn := fn c + 1\<rparr> else c\<lparr>fp := fp c + 1\<rparr>))"

record outcome = counters +
  d_separated_total :: int
  d_connected_total :: int

subsection \<open>The script\<close>

text \<open>
  Lines 56 to 141 with the seed and the trial budget as parameters. The predictor list
  is built once before the loop (lines 63 to 67), where a target that is not a node of
  the true graph raises ValueError. \<open>n\<close> is \<^verbatim>\<open>len(g_true.nodes) - 1\<close>; the list has a
  member when line 67 has passed, so the subtraction does not go below zero.
\<close>

definition gc_run ::
  "'s rng_lib \<Rightarrow> 'a d_separated \<Rightarrow> int \<Rightarrow> nat \<Rightarrow> ('a::linorder) digraph \<Rightarrow> 'a digraph \<Rightarrow> 'a
     \<Rightarrow> error + outcome" where
  "gc_run L nx seed mc g_true g_est target =
     (case py_remove (sort (nodes g_true)) target of
        Inl e \<Rightarrow> Inl e
      | Inr ps \<Rightarrow>
     (case mc_loop L nx g_true g_est target (length (nodes g_true) - 1) mc 0
             \<lparr>rng = seed_all L seed, predictors = ps, d_seps_true = [], d_seps_est = []\<rparr> of
        Inl e \<Rightarrow> Inl e
      | Inr st \<Rightarrow>
     (case confusion (d_seps_true st) (d_seps_est st) of
        Inl e \<Rightarrow> Inl e
      | Inr c \<Rightarrow>
        Inr \<lparr>tp = tp c, tn = tn c, fp = fp c, fn = fn c,
             d_separated_total = tp c + fn c,
             d_connected_total = tn c + fp c\<rparr>)))"

text \<open>The script as it stands: seed 42, 1000 trials. The evaluation table it loads
  (or creates empty) in lines 41 to 47 is never assigned again.\<close>

definition gc_one_file ::
  "'s rng_lib \<Rightarrow> 'a d_separated \<Rightarrow> ('a::linorder) digraph \<Rightarrow> 'a digraph \<Rightarrow> 'a \<Rightarrow> 'row list
     \<Rightarrow> 'row list \<times> (error + outcome)" where
  "gc_one_file L nx g_true g_est target graph_evaluation =
     (graph_evaluation, gc_run L nx 42 1000 g_true g_est target)"

subsection \<open>What the libraries promise\<close>

text \<open>
  The documented behaviour of the three sampling calls: \<^verbatim>\<open>randint(a, b)\<close> returns an
  integer of \<open>[a, b]\<close>; \<^verbatim>\<open>choice(a, p=p)\<close> returns a member of a non-empty \<open>a\<close> when \<open>p\<close>
  is a probability vector of the same length; \<^verbatim>\<open>choice(m, size=k, replace=False)\<close>
  returns \<open>k\<close> distinct numbers below \<open>m\<close> when \<open>k \<le> m\<close>.
\<close>

definition rng_contract :: "'s rng_lib \<Rightarrow> bool" where
  "rng_contract L \<longleftrightarrow>
     (\<forall>s a b. a \<le> b \<longrightarrow> (\<exists>i s'. randint L s a b = Inr (i, s') \<and> a \<le> i \<and> i \<le> b)) \<and>
     (\<forall>s a p. a \<noteq> [] \<and> length p = length a \<and> (\<forall>q \<in> set p. 0 \<le> q) \<and> sum_list p = 1 \<longrightarrow>
        (\<exists>c s'. np_choice L s a p = Inr (c, s') \<and> c \<in> set a)) \<and>
     (\<forall>s m k. k \<le> m \<longrightarrow>
        (\<exists>js s'. rng_choice L s m k = Inr (js, s') \<and> length js = k \<and> distinct js \<and>
           (\<forall>j \<in> set js. j < m)))"

text \<open>\<^verbatim>\<open>nx.d_separated\<close> on a graph \<open>G\<close>: it answers when the three sets are disjoint sets
  of nodes of \<open>G\<close>, and raises NodeNotFound when one of the nodes is not in \<open>G\<close>.\<close>

definition nx_answers :: "'a d_separated \<Rightarrow> 'a digraph \<Rightarrow> bool" where
  "nx_answers nx G \<longleftrightarrow>
     (\<forall>x y z. x \<union> y \<union> z \<subseteq> set (nodes G) \<and> x \<inter> y = {} \<and> x \<inter> z = {} \<and> y \<inter> z = {} \<longrightarrow>
        (\<exists>v. nx G x y z = Inr v))"

definition nx_checks_nodes :: "'a d_separated \<Rightarrow> 'a digraph \<Rightarrow> bool" where
  "nx_checks_nodes nx G \<longleftrightarrow>
     (\<forall>x y z. \<not> x \<union> y \<union> z \<subseteq> set (nodes G) \<longrightarrow> nx G x y z = Inl NodeNotFound)"

subsection \<open>A small instance of the libraries\<close>

text \<open>
  Concrete stand-ins on which the model runs: a small congruential generator, and an
  oracle that checks its nodes and then calls two nodes separated when no edge joins
  them. They meet the contracts above; the theorems below hold for every library that
  does.
\<close>

definition advance :: "nat \<Rightarrow> nat" where
  "advance s = (13 * s + 7) mod 101"

definition counter_rng :: "nat rng_lib" where
  "counter_rng =
     \<lparr>seed_all = (\<lambda>k. nat \<bar>k\<bar>),
      randint = (\<lambda>s a b. if a \<le> b then Inr (a + int s mod (b - a + 1), advance s)
                          else Inl ValueError),
      np_choice = (\<lambda>s a p. if a = [] then Inl ValueError
                            else Inr (a ! (s mod length a), advance s)),
      rng_choice = (\<lambda>s m k. if k \<le> m then Inr (take k (rotate s [0..<m]), advance s)
                             else Inl ValueError)\<rparr>"

definition adjacent :: "'a digraph \<Rightarrow> 'a \<Rightarrow> 'a \<Rightarrow> bool" where
  "adjacent G u v \<longleftrightarrow> (u, v) \<in> set (edges G) \<or> (v, u) \<in> set (edges G)"

definition edge_oracle :: "'a d_separated" where
  "edge_oracle G x y z =
     (if x \<union> y \<union> z \<subseteq> set (nodes G) then Inr (\<forall>u \<in> x. \<forall>v \<in> y. \<not> adjacent G u v)
      else Inl NodeNotFound)"

subsection \<open>Example graphs\<close>

text \<open>The chain \<open>A \<rightarrow> B \<rightarrow> C \<rightarrow> D\<close> (its nodes inserted in another order), the chain
  with its nodes inserted in alphabetical order, the chain with the extra edge
  \<open>A \<rightarrow> D\<close>, the chain without its node \<open>B\<close>, and a graph of two nodes.\<close>

definition chain :: "string digraph" where
  "chain = \<lparr>nodes = [''D'', ''B'', ''A'', ''C''],
            edges = [(''A'', ''B''), (''B'', ''C''), (''C'', ''D'')]\<rparr>"


definition shortcut :: "string digraph" where
  "shortcut = \<lparr>nodes = [''D'', ''B'', ''A'', ''C''],
               edges = [(''A'', ''B''), (''B'', ''C''), (''C'', ''D''), (''A'', ''D'')]\<rparr>"

definition chain_without_B :: "string digraph" where
  "chain_without_B = \<lparr>nodes = [''D'', ''A'', ''C''], edges = [(''C'', ''D'')]\<rparr>"

definition pair_graph :: "string digraph" where
  "pair_graph = \<lparr>nodes = [''y'', ''A''], edges = []\<rparr>"

text \<open>A state between two trials: the generator has advanced, \<open>predictors\<close> is what the
  last trial left of it.\<close>

definition state1 :: "(string, nat) state" where
  "state1 = \<lparr>rng = 1, predictors = [''A'', ''B''], d_seps_true = [True], d_seps_est = [True]\<rparr>"

subsection \<open>Derived metrics\<close>

text \<open>
  Modelled from the spec: the derivation of precision, recall, F1 and the four rates.
  The script ends with the two totals of lines 140 and 141; of the metrics it has only
  the column names (lines 44 to 46). Following the spec, each metric is a quotient and
  is undefined (\<open>None\<close>) when its denominator is zero; F1 is undefined when precision or
  recall is.
\<close>

definition ratio :: "int \<Rightarrow> int \<Rightarrow> rat option" where
  "ratio a b = (if b = 0 then None else Some (of_int a / of_int b))"

record metrics =
  precision :: "rat option"
  recall :: "rat option"
  F1 :: "rat option"
  TP_rate :: "rat option"
  TN_rate :: "rat option"
  FP_rate :: "rat option"
  FN_rate :: "rat option"

definition f1_score :: "rat option \<Rightarrow> rat option \<Rightarrow> rat option" where
  "f1_score p r =
     (case p of
        None \<Rightarrow> None
      | Some pv \<Rightarrow>
     (case r of
        None \<Rightarrow> None
      | Some rv \<Rightarrow> if pv + rv = 0 then None else Some (2 * pv * rv / (pv + rv))))"

definition derive_metrics :: "outcome \<Rightarrow> metrics" where
  "derive_metrics r =
     \<lparr>precision = ratio (tp r) (tp r + fp r),
      recall = ratio (tp r) (tp r + fn r),
      F1 = f1_score (ratio (tp r) (tp r + fp r)) (ratio (tp r) (tp r + fn r)),
      TP_rate = ratio (tp r) (d_separated_total r),
      TN_rate = ratio (tn r) (d_connected_total r),
      FP_rate = ratio (fp r) (d_connected_total r),
      FN_rate = ratio (fn r) (d_separated_total r)\<rparr>"

section \<open>Properties\<close>

declare mc_loop.simps [simp del]

subsection \<open>The counting loop\<close>

lemma count_loop_in_range:
  "\<forall>i \<in> set js. i < length ts \<and> i < length es \<Longrightarrow>
   count_loop ts es js c =
     Inr (c\<lparr>tn := tn c + int (length (filter (\<lambda>i. ts ! i = es ! i) js)),
            fp := fp c + int (length (filter (\<lambda>i. ts ! i \<noteq> es ! i) js))\<rparr>)"
proof (induction js arbitrary: c)
  case Nil
  show ?case by simp
next
  case (Cons j js)
  then show ?case by (simp add: py_index_def)
qed

lemma confusion_eq:
  "length ts \<le> length es \<Longrightarrow>
   confusion ts es =
     Inr \<lparr>tp = 0, tn = int (length (filter (\<lambda>i. ts ! i = es ! i) [0..<length ts])),
          fp = int (length (filter (\<lambda>i. ts ! i \<noteq> es ! i) [0..<length ts])), fn = 0\<rparr>"
  unfolding confusion_def by (subst count_loop_in_range) auto

lemma count_loop_InrD:
  "count_loop ts es js c = Inr c' \<Longrightarrow> \<forall>i \<in> set js. i < length ts \<and> i < length es"
proof (induction js arbitrary: c)
  case Nil
  show ?case by simp
next
  case (Cons j js)
  from Cons.prems obtain c1 where j: "j < length ts" "j < length es"
    and rest: "count_loop ts es js c1 = Inr c'"
    by (auto simp: py_index_def split: sum.splits if_splits)
  from Cons.IH [OF rest] j show ?case by simp
qed

lemma confusion_Inr_iff:
  "confusion ts es = Inr c \<longleftrightarrow>
     length ts \<le> length es \<and>
     c = \<lparr>tp = 0, tn = int (length (filter (\<lambda>i. ts ! i = es ! i) [0..<length ts])),
          fp = int (length (filter (\<lambda>i. ts ! i \<noteq> es ! i) [0..<length ts])), fn = 0\<rparr>"
proof
  assume r: "confusion ts es = Inr c"
  then have "\<forall>i \<in> set [0..<length ts]. i < length ts \<and> i < length es"
    unfolding confusion_def by (rule count_loop_InrD)
  then have le: "length ts \<le> length es"
    by (cases "length ts") (auto simp del: upt_Suc)
  with r confusion_eq [OF le] show "length ts \<le> length es \<and>
     c = \<lparr>tp = 0, tn = int (length (filter (\<lambda>i. ts ! i = es ! i) [0..<length ts])),
          fp = int (length (filter (\<lambda>i. ts ! i \<noteq> es ! i) [0..<length ts])), fn = 0\<rparr>"
    by simp
next
  assume "length ts \<le> length es \<and>
     c = \<lparr>tp = 0, tn = int (length (filter (\<lambda>i. ts ! i = es ! i) [0..<length ts])),
          fp = int (length (filter (\<lambda>i. ts ! i \<noteq> es ! i) [0..<length ts])), fn = 0\<rparr>"
  then show "confusion ts es = Inr c" using confusion_eq by simp
qed

lemma count_loop_convention:
  "\<forall>i \<in> set js. i < length ts \<and> i < length es \<and> \<not> ts ! i \<Longrightarrow>
   count_loop ts es js c = Inr (fold (\<lambda>i. classify_and_accumulate (ts ! i) (es ! i)) js c)"
  by (induction js arbitrary: c) (simp_all add: py_index_def)

subsection \<open>The lists of verdicts\<close>

lemma sample_trial_lists:
  "sample_trial L g t n st = Inr (dr, st1) \<Longrightarrow>
   d_seps_true st1 = d_seps_true st \<and> d_seps_est st1 = d_seps_est st"
  unfolding sample_trial_def
  by (auto split: sum.splits prod.splits if_splits)

lemma trial_appends:
  "trial L nx g_true g_est target n st = Inr st' \<Longrightarrow>
   \<exists>dr st1 vt ve. sample_trial L g_true target n st = Inr (dr, st1) \<and>
      nx g_true {node dr} {target} (cond_set dr) = Inr vt \<and>
      nx g_est {node dr} {target} (cond_set dr) = Inr ve \<and>
      d_seps_true st' = d_seps_true st @ [vt] \<and> d_seps_est st' = d_seps_est st @ [ve]"
  unfolding trial_def
  by (auto split: sum.splits prod.splits dest: sample_trial_lists)

lemma mc_loop_lengths:
  "mc_loop L nx g_true g_est target n mc k st = Inr st' \<Longrightarrow> k \<le> mc \<Longrightarrow>
   length (d_seps_true st') = length (d_seps_true st) + (mc - k) \<and>
   length (d_seps_est st') = length (d_seps_est st) + (mc - k)"
proof (induction L nx g_true g_est target n mc k st rule: mc_loop.induct)
  case (1 L nx g_true g_est target n mc k st)
  show ?case
  proof (cases "k < mc")
    case False
    with "1.prems" show ?thesis by (simp add: mc_loop.simps)
  next
    case True
    with "1.prems" obtain st1 where t: "trial L nx g_true g_est target n st = Inr st1"
      and r: "mc_loop L nx g_true g_est target n mc (k + 1) st1 = Inr st'"
      by (auto simp: mc_loop.simps [of _ _ _ _ _ _ mc k] split: sum.splits)
    from "1.IH" [OF True t r] True
    have "length (d_seps_true st') = length (d_seps_true st1) + (mc - (k + 1))"
      and "length (d_seps_est st') = length (d_seps_est st1) + (mc - (k + 1))" by auto
    moreover from trial_appends [OF t]
    have "length (d_seps_true st1) = length (d_seps_true st) + 1"
      and "length (d_seps_est st1) = length (d_seps_est st) + 1" by auto
    ultimately show ?thesis using True by linarith
  qed
qed

subsection \<open>The predictor list and the conditioning set\<close>

lemma pool_facts:
  assumes "distinct xs" "t \<in> set xs"
  shows "distinct (remove1 t (sort xs))" "sorted (remove1 t (sort xs))"
    "length (remove1 t (sort xs)) = length xs - 1"
    "set (remove1 t (sort xs)) = set xs - {t}"
  using assms by (simp_all add: length_remove1 sorted_remove1)

lemma collect_image:
  "collect dec js cs = Inr cs' \<Longrightarrow>
   cs' = cs \<union> (\<lambda>j. dec ! j) ` set js \<and> (\<forall>j \<in> set js. j < length dec)"
proof (induction js arbitrary: cs)
  case Nil
  then show ?case by simp
next
  case (Cons j js)
  from Cons.prems obtain v where v: "py_index dec (int j) = Inr v"
    and rest: "collect dec js (insert v cs) = Inr cs'"
    by (auto split: sum.splits)
  from v have "j < length dec" "v = dec ! j"
    by (auto simp: py_index_def split: if_splits)
  with Cons.IH [OF rest] show ?case by auto
qed


lemma card_nth_image:
  assumes "distinct dec" "distinct js" "\<forall>j \<in> set js. j < length dec"
  shows "card ((\<lambda>j. dec ! j) ` set js) = length js"
proof -
  have "inj_on (\<lambda>j. dec ! j) (set js)"
    using assms(1,3) by (auto simp: inj_on_def nth_eq_iff_index_eq)
  then have "card ((\<lambda>j. dec ! j) ` set js) = card (set js)" by (rule card_image)
  with assms(2) show ?thesis by (simp add: distinct_card)
qed

subsection \<open>The cardinality distribution\<close>

lemma length_probs: "length (probs n) = n"
  by (simp add: probs_def)


lemma probs_nonneg: "q \<in> set (probs n) \<Longrightarrow> 0 \<le> q"
  by (auto simp: probs_def comb_def)

lemma sum_probs: "1 \<le> n \<Longrightarrow> sum_list (probs n) = 1"
proof -
  assume "1 \<le> n"
  then obtain m where n: "n = Suc m" by (cases n) auto
  have "{0..<Suc m} = {..m}" by auto
  then have "sum_list (probs n) = (\<Sum>i\<le>m. (of_nat (m choose i) :: rat) / 2 ^ m)"
    unfolding probs_def comb_def n
    by (simp only: interv_sum_list_conv_sum_set_nat set_upt diff_Suc_1)
  also have "\<dots> = (\<Sum>i\<le>m. (of_nat (m choose i) :: rat)) / 2 ^ m"
    by (simp only: sum_divide_distrib)
  also have "(\<Sum>i\<le>m. (of_nat (m choose i) :: rat)) = of_nat (\<Sum>i\<le>m. m choose i)"
    by simp
  also have "(\<Sum>i\<le>m. m choose i) = 2 ^ m" by (rule choose_row_sum)
  finally show ?thesis by simp
qed


subsection \<open>What a trial samples\<close>

lemma sample_trial_InrE:
  assumes "sample_trial L g t n st = Inr (dr, st1)"
  obtains s1 s2 where
    "t \<in> set (nodes g)" "pool dr = remove1 t (sort (nodes g))"
    "randint L (rng st) 0 (int n - 1) = Inr (ind dr, s1)"
    "py_index (pool dr) (ind dr) = Inr (node dr)"
    "node dr \<in> set (pool dr)"
    "deconfounders dr = remove1 (node dr) (pool dr)"
    "np_choice L s1 [0..<n] (probs n) = Inr (card_drawn dr, s2)"
    "card_drawn dr = 0 \<longrightarrow> cond_set dr = {} \<and> rng st1 = s2"
    "card_drawn dr \<noteq> 0 \<longrightarrow>
       (\<exists>js s3. rng_choice L s2 (n - 1) (card_drawn dr) = Inr (js, s3) \<and>
          collect (deconfounders dr) js {} = Inr (cond_set dr) \<and> rng st1 = s3)"
    "predictors st1 = deconfounders dr"
  using assms unfolding sample_trial_def py_remove_def
  by (auto split: sum.splits prod.splits if_splits)

lemma contract_randint:
  "rng_contract L \<Longrightarrow> a \<le> b \<Longrightarrow> \<exists>i s'. randint L s a b = Inr (i, s') \<and> a \<le> i \<and> i \<le> b"
  unfolding rng_contract_def by blast

lemma contract_np_choice:
  "rng_contract L \<Longrightarrow> 1 \<le> n \<Longrightarrow>
   \<exists>c s'. np_choice L s [0..<n] (probs n) = Inr (c, s') \<and> c < n"
proof -
  assume L: "rng_contract L" and n: "1 \<le> n"
  have "[0..<n] \<noteq> [] \<and> length (probs n) = length [0..<n] \<and>
        (\<forall>q \<in> set (probs n). 0 \<le> q) \<and> sum_list (probs n) = 1"
    using n by (simp add: length_probs probs_nonneg sum_probs)
  with L have "\<exists>c s'. np_choice L s [0..<n] (probs n) = Inr (c, s') \<and> c \<in> set [0..<n]"
    unfolding rng_contract_def by blast
  then show ?thesis by simp
qed

lemma contract_rng_choice:
  "rng_contract L \<Longrightarrow> k \<le> m \<Longrightarrow>
   \<exists>js s'. rng_choice L s m k = Inr (js, s') \<and> length js = k \<and> distinct js \<and>
      (\<forall>j \<in> set js. j < m)"
  unfolding rng_contract_def by blast

lemma py_index_InrD:
  "py_index xs i = Inr v \<Longrightarrow> xs \<noteq> [] \<and> v \<in> set xs"
  by (auto simp: py_index_def split: if_splits)

lemma sample_trial_sound:
  assumes L: "rng_contract L" and d: "distinct (nodes g)"
    and s: "sample_trial L g t (length (nodes g) - 1) st = Inr (dr, st1)"
  shows "t \<in> set (nodes g)" "2 \<le> length (nodes g)"
    "pool dr = remove1 t (sort (nodes g))"
    "0 \<le> ind dr" "ind dr \<le> int (length (nodes g) - 1) - 1"
    "node dr = pool dr ! nat (ind dr)" "node dr \<in> set (nodes g)" "node dr \<noteq> t"
    "deconfounders dr = remove1 (node dr) (pool dr)"
    "distinct (deconfounders dr)" "length (deconfounders dr) = length (nodes g) - 2"
    "set (deconfounders dr) = set (nodes g) - {t, node dr}"
    "card_drawn dr \<le> length (nodes g) - 2"
    "card_drawn dr = 0 \<longrightarrow> cond_set dr = {}"
    "\<exists>js. length js = card_drawn dr \<and> distinct js \<and> (\<forall>j \<in> set js. j < length (nodes g) - 2) \<and>
       cond_set dr = (\<lambda>j. deconfounders dr ! j) ` set js"
proof -
  let ?n = "length (nodes g) - 1"
  from s obtain s1 s2 where t: "t \<in> set (nodes g)"
    and pool: "pool dr = remove1 t (sort (nodes g))"
    and ri: "randint L (rng st) 0 (int ?n - 1) = Inr (ind dr, s1)"
    and ix: "py_index (pool dr) (ind dr) = Inr (node dr)"
    and dec: "deconfounders dr = remove1 (node dr) (pool dr)"
    and ch: "np_choice L s1 [0..<?n] (probs ?n) = Inr (card_drawn dr, s2)"
    and c0: "card_drawn dr = 0 \<longrightarrow> cond_set dr = {} \<and> rng st1 = s2"
    and c1: "card_drawn dr \<noteq> 0 \<longrightarrow>
       (\<exists>js s3. rng_choice L s2 (?n - 1) (card_drawn dr) = Inr (js, s3) \<and>
          collect (deconfounders dr) js {} = Inr (cond_set dr) \<and> rng st1 = s3)"
    by (rule sample_trial_InrE)
  note pf = pool_facts [OF d t, folded pool]
  from ix have ne: "pool dr \<noteq> []" and nd: "node dr \<in> set (pool dr)"
    using py_index_InrD by fastforce+
  from ne pf(3) have n1: "1 \<le> ?n" by (cases "pool dr") auto
  then have two: "2 \<le> length (nodes g)" by simp
  from contract_randint [OF L, of 0 "int ?n - 1" "rng st"] n1 ri
  have ind: "0 \<le> ind dr" "ind dr \<le> int ?n - 1" by auto
  with ix pf(3) have node: "node dr = pool dr ! nat (ind dr)"
    by (auto simp: py_index_def split: if_splits)
  from nd pf(4) have nd': "node dr \<in> set (nodes g)" "node dr \<noteq> t" by auto
  from pf(1) have ddec: "distinct (deconfounders dr)" by (simp add: dec)
  from nd pf(3) have ldec: "length (deconfounders dr) = length (nodes g) - 2"
    by (simp add: dec length_remove1)
  from pf(1) pf(4) have sdec: "set (deconfounders dr) = set (nodes g) - {t, node dr}"
    by (auto simp: dec)
  from contract_np_choice [OF L n1, of s1] ch have cn: "card_drawn dr < ?n" by auto
  then have cle: "card_drawn dr \<le> length (nodes g) - 2" by simp
  have js: "\<exists>js. length js = card_drawn dr \<and> distinct js \<and>
       (\<forall>j \<in> set js. j < length (nodes g) - 2) \<and>
       cond_set dr = (\<lambda>j. deconfounders dr ! j) ` set js"
  proof (cases "card_drawn dr = 0")
    case True
    with c0 show ?thesis by (intro exI [of _ "[]"]) simp
  next
    case False
    with c1 obtain js s3 where
      rc: "rng_choice L s2 (?n - 1) (card_drawn dr) = Inr (js, s3)"
      and co: "collect (deconfounders dr) js {} = Inr (cond_set dr)" by blast
    from cn have "card_drawn dr \<le> ?n - 1" by simp
    from contract_rng_choice [OF L this, of s2] rc
    have "length js = card_drawn dr" "distinct js" "\<forall>j \<in> set js. j < ?n - 1" by auto
    moreover from collect_image [OF co]
    have "cond_set dr = (\<lambda>j. deconfounders dr ! j) ` set js" by simp
    ultimately show ?thesis by (intro exI [of _ js]) (simp add: numeral_2_eq_2)
  qed
  from t two pool ind node nd' dec ddec ldec sdec cle c0 js
  show "t \<in> set (nodes g)" "2 \<le> length (nodes g)"
    "pool dr = remove1 t (sort (nodes g))"
    "0 \<le> ind dr" "ind dr \<le> int (length (nodes g) - 1) - 1"
    "node dr = pool dr ! nat (ind dr)" "node dr \<in> set (nodes g)" "node dr \<noteq> t"
    "deconfounders dr = remove1 (node dr) (pool dr)"
    "distinct (deconfounders dr)" "length (deconfounders dr) = length (nodes g) - 2"
    "set (deconfounders dr) = set (nodes g) - {t, node dr}"
    "card_drawn dr \<le> length (nodes g) - 2"
    "card_drawn dr = 0 \<longrightarrow> cond_set dr = {}"
    "\<exists>js. length js = card_drawn dr \<and> distinct js \<and> (\<forall>j \<in> set js. j < length (nodes g) - 2) \<and>
       cond_set dr = (\<lambda>j. deconfounders dr ! j) ` set js"
    by simp_all
qed

subsection \<open>A completed run\<close>

lemma gc_run_InrD:
  assumes "gc_run L nx seed mc g_true g_est target = Inr r"
  obtains ps st c where
    "py_remove (sort (nodes g_true)) target = Inr ps"
    "mc_loop L nx g_true g_est target (length (nodes g_true) - 1) mc 0
       \<lparr>rng = seed_all L seed, predictors = ps, d_seps_true = [], d_seps_est = []\<rparr> = Inr st"
    "confusion (d_seps_true st) (d_seps_est st) = Inr c"
    "r = \<lparr>tp = tp c, tn = tn c, fp = fp c, fn = fn c,
          d_separated_total = tp c + fn c, d_connected_total = tn c + fp c\<rparr>"
  using assms unfolding gc_run_def by (auto split: sum.splits)

lemma mc_loop_same_graph:
  "mc_loop L nx g g' target n mc k st = Inr st' \<Longrightarrow> g' = g \<Longrightarrow>
   d_seps_true st = d_seps_est st \<Longrightarrow> d_seps_true st' = d_seps_est st'"
proof (induction L nx g g' target n mc k st rule: mc_loop.induct)
  case (1 L nx g_true g_est target n mc k st)
  show ?case
  proof (cases "k < mc")
    case False
    with "1.prems" show ?thesis by (simp add: mc_loop.simps)
  next
    case True
    with "1.prems" obtain st1 where t: "trial L nx g_true g_est target n st = Inr st1"
      and r: "mc_loop L nx g_true g_est target n mc (k + 1) st1 = Inr st'"
      by (auto simp: mc_loop.simps [of _ _ _ _ _ _ mc k] split: sum.splits)
    from trial_appends [OF t] "1.prems"(2,3) have "d_seps_true st1 = d_seps_est st1"
      by auto
    with "1.IH" [OF True t r] "1.prems"(2) show ?thesis by simp
  qed
qed

lemma gc_run_lists:
  assumes "gc_run L nx seed mc g_true g_est target = Inr r"
  obtains ts es where "length ts = mc" "length es = mc"
    "confusion ts es = Inr \<lparr>tp = tp r, tn = tn r, fp = fp r, fn = fn r\<rparr>"
    "d_separated_total r = tp r + fn r" "d_connected_total r = tn r + fp r"
    "g_est = g_true \<longrightarrow> es = ts"
proof -
  from assms obtain ps st c where
    loop: "mc_loop L nx g_true g_est target (length (nodes g_true) - 1) mc 0
       \<lparr>rng = seed_all L seed, predictors = ps, d_seps_true = [], d_seps_est = []\<rparr> = Inr st"
    and c: "confusion (d_seps_true st) (d_seps_est st) = Inr c"
    and r: "r = \<lparr>tp = tp c, tn = tn c, fp = fp c, fn = fn c,
          d_separated_total = tp c + fn c, d_connected_total = tn c + fp c\<rparr>"
    by (rule gc_run_InrD)
  from mc_loop_lengths [OF loop]
  have len: "length (d_seps_true st) = mc" "length (d_seps_est st) = mc" by simp_all
  have same: "g_est = g_true \<longrightarrow> d_seps_est st = d_seps_true st"
    using mc_loop_same_graph [OF loop] by simp
  from c r have "confusion (d_seps_true st) (d_seps_est st) =
      Inr \<lparr>tp = tp r, tn = tn r, fp = fp r, fn = fn r\<rparr>" by simp
  with len same r show thesis by (intro that [of "d_seps_true st" "d_seps_est st"]) simp_all
qed

lemma filter_split_length:
  "int (length (filter P xs)) + int (length (filter (\<lambda>x. \<not> P x) xs)) = int (length xs)"
  using sum_length_filter_compl [of P xs] by linarith

lemma gc_run_counts:
  assumes "gc_run L nx seed mc g_true g_est target = Inr r"
  obtains ts es :: "bool list" where
    "length ts = mc" "length es = mc" "g_est = g_true \<longrightarrow> es = ts" "tp r = 0" "fn r = 0"
    "tn r = int (length (filter (\<lambda>i. ts ! i = es ! i) [0..<mc]))"
    "fp r = int (length (filter (\<lambda>i. ts ! i \<noteq> es ! i) [0..<mc]))"
proof -
  from assms obtain ts es where len: "length ts = mc" "length es = mc"
    and c: "confusion ts es = Inr \<lparr>tp = tp r, tn = tn r, fp = fp r, fn = fn r\<rparr>"
    and same: "g_est = g_true \<longrightarrow> es = ts"
    by (rule gc_run_lists)
  from len have "length ts \<le> length es" by simp
  from confusion_eq [OF this] c len
  have "tp r = 0" "fn r = 0"
    "tn r = int (length (filter (\<lambda>i. ts ! i = es ! i) [0..<mc]))"
    "fp r = int (length (filter (\<lambda>i. ts ! i \<noteq> es ! i) [0..<mc]))"
    by simp_all
  with len same show thesis by (rule that)
qed

subsection \<open>The order in which nodes were inserted\<close>




subsection \<open>The metrics\<close>

lemma ratio_None: "ratio a b = None \<longleftrightarrow> b = 0"
  by (simp add: ratio_def)

lemma ratio_Some: "b \<noteq> 0 \<Longrightarrow> ratio a b = Some (of_int a / of_int b)"
  by (simp add: ratio_def)

lemma f1_score_None: "f1_score p q = None \<longleftrightarrow> p = None \<or> q = None \<or> the p + the q = 0"
  by (cases p; cases q) (simp_all add: f1_score_def)

lemma metrics_of_a_run:
  assumes "gc_run L nx seed mc g_true g_est target = Inr r"
  shows "recall (derive_metrics r) = None \<and> F1 (derive_metrics r) = None \<and>
    TP_rate (derive_metrics r) = None \<and> FN_rate (derive_metrics r) = None"
proof -
  from assms obtain ts es :: "bool list" where "tp r = 0" "fn r = 0"
    by (rule gc_run_counts)
  moreover from assms obtain ts es :: "bool list" where "d_separated_total r = tp r + fn r"
    by (rule gc_run_lists)
  ultimately show ?thesis by (simp add: derive_metrics_def ratio_def f1_score_def split: option.splits)
qed

subsection \<open>Runs that complete\<close>


lemma nx_answersD:
  "nx_answers nx G \<Longrightarrow> x \<union> y \<union> z \<subseteq> set (nodes G) \<Longrightarrow> x \<inter> y = {} \<Longrightarrow> x \<inter> z = {} \<Longrightarrow>
   y \<inter> z = {} \<Longrightarrow> \<exists>v. nx G x y z = Inr v"
  by (simp add: nx_answers_def)




subsection \<open>Runs that abort\<close>

lemma mc_loop_split:
  "k \<le> j \<Longrightarrow> j \<le> mc \<Longrightarrow>
   mc_loop L nx g_true g_est target n mc k st =
     (case mc_loop L nx g_true g_est target n j k st of
        Inl e \<Rightarrow> Inl e
      | Inr st' \<Rightarrow> mc_loop L nx g_true g_est target n mc j st')"
proof (induction "j - k" arbitrary: k st)
  case 0
  then have "k = j" by simp
  then show ?case by (simp add: mc_loop.simps [of _ _ _ _ _ _ j j])
next
  case (Suc m)
  then have lt: "k < j" "k < mc" and m: "m = j - (k + 1)" and le: "k + 1 \<le> j" by simp_all
  have step: "mc_loop L nx g_true g_est target n mc (k + 1) st1 =
     (case mc_loop L nx g_true g_est target n j (k + 1) st1 of
        Inl e \<Rightarrow> Inl e
      | Inr st' \<Rightarrow> mc_loop L nx g_true g_est target n mc j st')" for st1
    by (rule Suc.hyps(1) [OF m le Suc.prems(2)])
  show ?case
  proof (cases "trial L nx g_true g_est target n st")
    case (Inl e)
    with lt show ?thesis
      by (simp add: mc_loop.simps [of _ _ _ _ _ _ mc k] mc_loop.simps [of _ _ _ _ _ _ j k])
  next
    case (Inr st1)
    with lt step [of st1] show ?thesis
      by (simp add: mc_loop.simps [of _ _ _ _ _ _ mc k] mc_loop.simps [of _ _ _ _ _ _ j k])
  qed
qed

lemma mc_loop_aborts:
  assumes "j < mc"
    and "mc_loop L nx g_true g_est target n j 0 st0 = Inr st"
    and "trial L nx g_true g_est target n st = Inl e"
  shows "mc_loop L nx g_true g_est target n mc 0 st0 = Inl e"
proof -
  from assms(1) have "0 \<le> j" "j \<le> mc" by simp_all
  from mc_loop_split [OF this, of L nx g_true g_est target n st0] assms(2)
  have "mc_loop L nx g_true g_est target n mc 0 st0 = mc_loop L nx g_true g_est target n mc j st"
    by simp
  also from assms(1,3) have "\<dots> = Inl e" by (simp add: mc_loop.simps [of _ _ _ _ _ _ mc j])
  finally show ?thesis .
qed

lemma gc_run_aborts:
  assumes "target \<in> set (nodes g_true)" and "j < mc"
    and "mc_loop L nx g_true g_est target (length (nodes g_true) - 1) j 0
           \<lparr>rng = seed_all L seed, predictors = remove1 target (sort (nodes g_true)),
            d_seps_true = [], d_seps_est = []\<rparr> = Inr st"
    and "trial L nx g_true g_est target (length (nodes g_true) - 1) st = Inl e"
  shows "gc_run L nx seed mc g_true g_est target = Inl e"
  using assms(1) mc_loop_aborts [OF assms(2,3,4)] by (simp add: gc_run_def py_remove_def)

lemma sample_args:
  assumes L: "rng_contract L" and d: "distinct (nodes g)"
    and s: "sample_trial L g t (length (nodes g) - 1) st = Inr (dr, st1)"
  shows "{node dr} \<union> {t} \<union> cond_set dr \<subseteq> set (nodes g)" "{node dr} \<inter> {t} = {}"
    "{node dr} \<inter> cond_set dr = {}" "{t} \<inter> cond_set dr = {}"
proof -
  note f = sample_trial_sound [OF L d s]
  from f(15) obtain js where js: "\<forall>j \<in> set js. j < length (nodes g) - 2"
    and cs: "cond_set dr = (\<lambda>j. deconfounders dr ! j) ` set js" by auto
  from js f(11) have "cond_set dr \<subseteq> set (deconfounders dr)" unfolding cs by auto
  with f(12) have sub1: "cond_set dr \<subseteq> set (nodes g) - {t, node dr}" by simp
  from sub1 f(7) f(1) show "{node dr} \<union> {t} \<union> cond_set dr \<subseteq> set (nodes g)" by auto
  from f(8) show "{node dr} \<inter> {t} = {}" by simp
  from sub1 show "{node dr} \<inter> cond_set dr = {}" "{t} \<inter> cond_set dr = {}" by auto
qed

lemma trial_unknown_node:
  assumes L: "rng_contract L" and d: "distinct (nodes g_true)"
    and a: "nx_answers nx g_true" and c: "nx_checks_nodes nx g_est"
    and s: "sample_trial L g_true target (length (nodes g_true) - 1) st = Inr (dr, st1)"
    and u: "\<not> {node dr} \<union> {target} \<union> cond_set dr \<subseteq> set (nodes g_est)"
  shows "trial L nx g_true g_est target (length (nodes g_true) - 1) st = Inl NodeNotFound"
proof -
  from nx_answersD [OF a sample_args [OF L d s]]
  obtain vt where vt: "nx g_true {node dr} {target} (cond_set dr) = Inr vt" ..
  from c u have "nx g_est {node dr} {target} (cond_set dr) = Inl NodeNotFound"
    by (simp add: nx_checks_nodes_def)
  with s vt show ?thesis by (simp add: trial_def)
qed

subsection \<open>The small instance meets the contracts\<close>

lemma counter_randint:
  "a \<le> b \<Longrightarrow> \<exists>i s'. randint counter_rng s a b = Inr (i, s') \<and> a \<le> i \<and> i \<le> b"
proof -
  assume ab: "a \<le> b"
  then have "0 < b - a + 1" by simp
  then have "0 \<le> int s mod (b - a + 1)" "int s mod (b - a + 1) < b - a + 1"
    by (rule pos_mod_sign, rule pos_mod_bound)
  with ab show ?thesis by (simp add: counter_rng_def)
qed

lemma counter_np_choice:
  "a \<noteq> [] \<Longrightarrow> \<exists>c s'. np_choice counter_rng s a p = Inr (c, s') \<and> c \<in> set a"
  by (simp add: counter_rng_def)

lemma counter_rng_choice:
  "k \<le> m \<Longrightarrow> \<exists>js s'. rng_choice counter_rng s m k = Inr (js, s') \<and> length js = k \<and>
     distinct js \<and> (\<forall>j \<in> set js. j < m)"
proof -
  assume km: "k \<le> m"
  let ?js = "take k (rotate s [0..<m])"
  have call: "rng_choice counter_rng s m k = Inr (?js, advance s)"
    using km by (simp add: counter_rng_def)
  have len: "length ?js = k" using km by simp
  have "distinct (rotate s [0..<m])" by (simp only: distinct_rotate distinct_upt)
  then have dist: "distinct ?js" by (rule distinct_take)
  have "set ?js \<subseteq> set (rotate s [0..<m])" by (rule set_take_subset)
  then have "set ?js \<subseteq> {0..<m}" by (simp only: set_rotate set_upt)
  then have bound: "\<forall>j \<in> set ?js. j < m" by auto
  from call len dist bound show ?thesis by blast
qed

lemma counter_rng_contract: "rng_contract counter_rng"
  unfolding rng_contract_def
proof (intro conjI allI impI)
  fix s :: nat and a b :: int
  assume "a \<le> b"
  then show "\<exists>i s'. randint counter_rng s a b = Inr (i, s') \<and> a \<le> i \<and> i \<le> b"
    by (rule counter_randint)
next
  fix s :: nat and a :: "nat list" and p :: "rat list"
  assume "a \<noteq> [] \<and> length p = length a \<and> (\<forall>q \<in> set p. 0 \<le> q) \<and> sum_list p = 1"
  then have "a \<noteq> []" ..
  then show "\<exists>c s'. np_choice counter_rng s a p = Inr (c, s') \<and> c \<in> set a"
    by (rule counter_np_choice)
next
  fix s m k :: nat
  assume "k \<le> m"
  then show "\<exists>js s'. rng_choice counter_rng s m k = Inr (js, s') \<and> length js = k \<and>
     distinct js \<and> (\<forall>j \<in> set js. j < m)"
    by (rule counter_rng_choice)
qed

lemma edge_oracle_answers: "nx_answers edge_oracle G"
  by (simp add: nx_answers_def edge_oracle_def)

lemma edge_oracle_checks_nodes: "nx_checks_nodes edge_oracle G"
  by (simp add: nx_checks_nodes_def edge_oracle_def)

lemma chain_shortcut_run:
  "gc_run counter_rng edge_oracle 42 6 chain shortcut ''D'' =
     Inr \<lparr>tp = 0, tn = 5, fp = 1, fn = 0, d_separated_total = 0, d_connected_total = 6\<rparr>"
  by code_simp


lemma pair_run:
  "gc_run counter_rng edge_oracle 42 3 pair_graph pair_graph ''y'' =
     Inr \<lparr>tp = 0, tn = 3, fp = 0, fn = 0, d_separated_total = 0, d_connected_total = 3\<rparr>"
  by code_simp

lemma chain_sample:
  "sample_trial counter_rng chain ''D'' 3 state1 =
     Inr (\<lparr>pool = [''A'', ''B'', ''C''], ind = 1, node = ''B'', deconfounders = [''A'', ''C''],
            card_drawn = 2, cond_set = {''A'', ''C''}\<rparr>,
          \<lparr>rng = 44, predictors = [''A'', ''C''], d_seps_true = [True], d_seps_est = [True]\<rparr>)"
  by code_simp




lemma chain_first_trial:
  "mc_loop counter_rng edge_oracle chain chain_without_B ''D'' (length (nodes chain) - 1) 1 0
     \<lparr>rng = seed_all counter_rng 42, predictors = remove1 ''D'' (sort (nodes chain)),
      d_seps_true = [], d_seps_est = []\<rparr> =
   Inr \<lparr>rng = 25, predictors = [''B'', ''C''], d_seps_true = [True], d_seps_est = [True]\<rparr>"
  by code_simp

lemma chain_second_sample:
  "sample_trial counter_rng chain ''D'' (length (nodes chain) - 1)
     \<lparr>rng = 25, predictors = [''B'', ''C''], d_seps_true = [True], d_seps_est = [True]\<rparr> =
   Inr (\<lparr>pool = [''A'', ''B'', ''C''], ind = 1, node = ''B'', deconfounders = [''A'', ''C''],
          card_drawn = 2, cond_set = {''A'', ''C''}\<rparr>,
        \<lparr>rng = 50, predictors = [''A'', ''C''], d_seps_true = [True], d_seps_est = [True]\<rparr>)"
  by code_simp

section \<open>The claims\<close>

text \<open>
  C1. The classification convention: verdicts that agree on "separated" count as TP,
  verdicts that agree on "connected" as TN, a disagreement with true verdict
  "separated" as FN, a disagreement with true verdict "connected" as FP.

  The counting loop does not follow it. On one trial with both verdicts "separated"
  it increments TN where the convention asks for TP, and on one trial with true verdict
  "separated" and estimated verdict "connected" it increments FP where the convention
  asks for FN: the tests of lines 130 and 135 compare the list \<^verbatim>\<open>d_seps_true\<close> with
  \<^verbatim>\<open>True\<close>, not its element \<^verbatim>\<open>d_seps_true[i]\<close>. A run on a graph of two nodes without an
  edge, passed as true and as estimated graph, has both verdicts "separated" in every
  trial and ends with TN equal to the budget and TP zero (lemma \<open>pair_run\<close>). On trials
  whose true verdict is "connected" the loop and the convention agree (lemma
  \<open>count_loop_convention\<close>).
\<close>

theorem count_loop_misclassifies:
  "confusion [True] [True] = Inr \<lparr>tp = 0, tn = 1, fp = 0, fn = 0\<rparr> \<and>
   classify_and_accumulate True True \<lparr>tp = 0, tn = 0, fp = 0, fn = 0\<rparr> =
     \<lparr>tp = 1, tn = 0, fp = 0, fn = 0\<rparr> \<and>
   confusion [True] [False] = Inr \<lparr>tp = 0, tn = 0, fp = 1, fn = 0\<rparr> \<and>
   classify_and_accumulate True False \<lparr>tp = 0, tn = 0, fp = 0, fn = 0\<rparr> =
     \<lparr>tp = 0, tn = 0, fp = 0, fn = 1\<rparr>"
  by (simp add: confusion_def py_index_def)

text \<open>
  C10. The counting loop as written leaves TP and FN at zero. It returns counters
  exactly when the estimated list is at least as long as the true one (in a run the two
  have the same length; otherwise \<^verbatim>\<open>d_seps_est[i]\<close> raises IndexError), and then every
  agreeing trial has incremented TN and every disagreeing trial FP, whatever the
  verdicts are. So in every completed run \<open>d_separated_total\<close> is zero and
  \<open>d_connected_total\<close> is the trial budget.
\<close>

theorem only_tn_fp:
  "(confusion ts es = Inr c \<longleftrightarrow>
      length ts \<le> length es \<and>
      c = \<lparr>tp = 0, tn = int (length (filter (\<lambda>i. ts ! i = es ! i) [0..<length ts])),
           fp = int (length (filter (\<lambda>i. ts ! i \<noteq> es ! i) [0..<length ts])), fn = 0\<rparr>) \<and>
   (gc_run L nx seed mc g_true g_est target = Inr r \<longrightarrow>
      tp r = 0 \<and> fn r = 0 \<and> d_separated_total r = 0 \<and> d_connected_total r = int mc)"
proof (intro conjI impI)
  show "confusion ts es = Inr c \<longleftrightarrow>
      length ts \<le> length es \<and>
      c = \<lparr>tp = 0, tn = int (length (filter (\<lambda>i. ts ! i = es ! i) [0..<length ts])),
           fp = int (length (filter (\<lambda>i. ts ! i \<noteq> es ! i) [0..<length ts])), fn = 0\<rparr>"
    by (rule confusion_Inr_iff)
next
  assume run: "gc_run L nx seed mc g_true g_est target = Inr r"
  then obtain xs ys :: "bool list" where v: "tp r = 0" "fn r = 0"
    "tn r = int (length (filter (\<lambda>i. xs ! i = ys ! i) [0..<mc]))"
    "fp r = int (length (filter (\<lambda>i. xs ! i \<noteq> ys ! i) [0..<mc]))"
    by (rule gc_run_counts)
  from run obtain xs' ys' :: "bool list" where
    tot: "d_separated_total r = tp r + fn r" "d_connected_total r = tn r + fp r"
    by (rule gc_run_lists)
  have "tn r + fp r = int (length [0..<mc])"
    unfolding v by (rule filter_split_length)
  with v tot show "tp r = 0" "fn r = 0" "d_separated_total r = 0" "d_connected_total r = int mc"
    by simp_all
qed

theorem only_tn_fp_witness:
  "confusion [True, False, True] [True, True, False] = Inr \<lparr>tp = 0, tn = 1, fp = 2, fn = 0\<rparr> \<and>
   length [True, False, True] \<le> length [True, True, False] \<and>
   (\<exists>r. gc_run counter_rng edge_oracle 42 6 chain shortcut ''D'' = Inr r \<and>
        tp r = 0 \<and> fn r = 0 \<and> d_separated_total r = 0 \<and> d_connected_total r = 6)"
proof -
  have len: "length [True, False, True] \<le> length [True, True, False]" by simp
  from only_tn_fp [of "[True, False, True]" "[True, True, False]"
      "\<lparr>tp = 0, tn = 1, fp = 2, fn = 0\<rparr>" counter_rng edge_oracle 42 6
      chain shortcut "''D''"
      "\<lparr>tp = 0, tn = 5, fp = 1, fn = 0, d_separated_total = 0, d_connected_total = 6\<rparr>"]
    len chain_shortcut_run
  show ?thesis by simp
qed

text \<open>
  C2. In every completed run with trial budget \<open>mc\<close> the four counters add up to \<open>mc\<close>,
  and none of them is negative.
\<close>

theorem counters_sum_to_budget:
  assumes "gc_run L nx seed mc g_true g_est target = Inr r"
  shows "tp r + tn r + fp r + fn r = int mc \<and> 0 \<le> tp r \<and> 0 \<le> tn r \<and> 0 \<le> fp r \<and> 0 \<le> fn r"
proof -
  from assms obtain ts es :: "bool list" where v: "tp r = 0" "fn r = 0"
    "tn r = int (length (filter (\<lambda>i. ts ! i = es ! i) [0..<mc]))"
    "fp r = int (length (filter (\<lambda>i. ts ! i \<noteq> es ! i) [0..<mc]))"
    by (rule gc_run_counts)
  have "tn r + fp r = int (length [0..<mc])"
    unfolding v by (rule filter_split_length)
  with v(1,2) have "tp r + tn r + fp r + fn r = int mc" by simp
  moreover from v have "0 \<le> tp r" "0 \<le> tn r" "0 \<le> fp r" "0 \<le> fn r" by simp_all
  ultimately show ?thesis by simp
qed

theorem counters_sum_to_budget_witness:
  "\<exists>r. gc_run counter_rng edge_oracle 42 6 chain shortcut ''D'' = Inr r \<and>
     tp r + tn r + fp r + fn r = 6 \<and> 0 \<le> tp r \<and> 0 \<le> tn r \<and> 0 \<le> fp r \<and> 0 \<le> fn r"
  using counters_sum_to_budget [OF chain_shortcut_run] chain_shortcut_run by simp



text \<open>
  C3. In every sampled trial the conditioning set is disjoint from predictor and target,
  consists of nodes of the graph, more precisely of deconfounders (the predictors
  without the chosen one), and has as many members as the drawn cardinality \<open>c\<close>, which
  is at most \<open>n - 1\<close>. With \<open>c = 0\<close> it is empty; in general it is the set of the
  deconfounders at \<open>c\<close> distinct indices below \<open>n - 1\<close>. The random sources are assumed to
  keep their documented contracts, and the node list of the graph to be free of
  duplicates, as the node view of a networkx graph is.
\<close>

theorem conditioning_set_invariant:
  assumes "rng_contract L" and "distinct (nodes g)" and "n = length (nodes g) - 1"
    and "sample_trial L g t n st = Inr (dr, st1)"
  shows "cond_set dr \<inter> {node dr, t} = {} \<and>
    cond_set dr \<subseteq> set (nodes g) \<and>
    deconfounders dr = remove1 (node dr) (remove1 t (sort (nodes g))) \<and>
    cond_set dr \<subseteq> set (deconfounders dr) \<and>
    set (deconfounders dr) = set (nodes g) - {t, node dr} \<and>
    length (deconfounders dr) = n - 1 \<and>
    card (cond_set dr) = card_drawn dr \<and> card_drawn dr \<le> n - 1 \<and>
    (card_drawn dr = 0 \<longrightarrow> cond_set dr = {}) \<and>
    (\<exists>js. length js = card_drawn dr \<and> distinct js \<and> (\<forall>j \<in> set js. j < n - 1) \<and>
       cond_set dr = (\<lambda>j. deconfounders dr ! j) ` set js)"
proof -
  from assms(3,4) have s: "sample_trial L g t (length (nodes g) - 1) st = Inr (dr, st1)" by simp
  note f = sample_trial_sound [OF assms(1,2) s]
  have n2: "n - 1 = length (nodes g) - 2" using assms(3) by simp
  from f(15) obtain js where js: "length js = card_drawn dr" "distinct js"
    "\<forall>j \<in> set js. j < length (nodes g) - 2"
    and cs: "cond_set dr = (\<lambda>j. deconfounders dr ! j) ` set js" by blast
  from js(3) f(11) have bound: "\<forall>j \<in> set js. j < length (deconfounders dr)" by simp
  then have sub: "cond_set dr \<subseteq> set (deconfounders dr)" unfolding cs by auto
  with f(12) have "cond_set dr \<inter> {node dr, t} = {}" "cond_set dr \<subseteq> set (nodes g)" by auto
  moreover have "deconfounders dr = remove1 (node dr) (remove1 t (sort (nodes g)))"
    using f(9) f(3) by simp
  moreover have "card (cond_set dr) = card_drawn dr"
    unfolding cs using card_nth_image [OF f(10) js(2) bound] js(1) by simp
  moreover have "\<exists>js. length js = card_drawn dr \<and> distinct js \<and> (\<forall>j \<in> set js. j < n - 1) \<and>
       cond_set dr = (\<lambda>j. deconfounders dr ! j) ` set js"
    unfolding n2 by (rule f(15))
  ultimately show ?thesis using sub f(11,12,13,14) n2 by simp
qed

theorem conditioning_set_invariant_witness:
  "rng_contract counter_rng \<and> distinct (nodes chain) \<and> (3::nat) = length (nodes chain) - 1 \<and>
   {''A'', ''C''} \<inter> {''B'', ''D''} = {} \<and>
   {''A'', ''C''} \<subseteq> set (nodes chain) \<and>
   [''A'', ''C''] = remove1 ''B'' (remove1 ''D'' (sort (nodes chain))) \<and>
   {''A'', ''C''} \<subseteq> set [''A'', ''C''] \<and>
   set [''A'', ''C''] = set (nodes chain) - {''D'', ''B''} \<and>
   length [''A'', ''C''] = (3::nat) - 1 \<and>
   card {''A'', ''C''} = (2::nat) \<and>
   (2::nat) \<le> 3 - 1 \<and>
   (\<exists>js. length js = (2::nat) \<and> distinct js \<and> (\<forall>j \<in> set js. j < (3::nat) - 1) \<and>
      {''A'', ''C''} = (\<lambda>j. [''A'', ''C''] ! j) ` set js)"
proof -
  have wf: "distinct (nodes chain)" "(3::nat) = length (nodes chain) - 1"
    by (simp_all add: chain_def)
  from conditioning_set_invariant [OF counter_rng_contract wf chain_sample, simplified draw.simps]
    counter_rng_contract wf
  show ?thesis by (elim conjE, intro conjI) assumption+
qed







text \<open>
  C7. After the trials the run derives \<open>d_separated_total = TP + FN\<close> and
  \<open>d_connected_total = TN + FP\<close> (lines 140 and 141). Precision, recall, F1 and the four
  rates are the quotients the spec names; a metric whose denominator is zero is
  undefined, and F1 is undefined when precision or recall is or when their sum is zero.
  The derivation of the quotients is the one modelled from the spec above.
\<close>

theorem derived_metrics:
  assumes "gc_run L nx seed mc g_true g_est target = Inr r" and "m = derive_metrics r"
  shows "d_separated_total r = tp r + fn r \<and> d_connected_total r = tn r + fp r \<and>
    precision m = ratio (tp r) (tp r + fp r) \<and>
    recall m = ratio (tp r) (tp r + fn r) \<and>
    F1 m = f1_score (precision m) (recall m) \<and>
    TP_rate m = ratio (tp r) (d_separated_total r) \<and>
    FN_rate m = ratio (fn r) (d_separated_total r) \<and>
    TN_rate m = ratio (tn r) (d_connected_total r) \<and>
    FP_rate m = ratio (fp r) (d_connected_total r) \<and>
    (\<forall>a b. ratio a b = (if b = 0 then None else Some (of_int a / of_int b))) \<and>
    (\<forall>p q. f1_score p q = None \<longleftrightarrow> p = None \<or> q = None \<or> the p + the q = 0) \<and>
    (\<forall>p q. p + q \<noteq> 0 \<longrightarrow> f1_score (Some p) (Some q) = Some (2 * p * q / (p + q)))"
proof -
  from assms(1) obtain ts es :: "bool list" where
    tot: "d_separated_total r = tp r + fn r" "d_connected_total r = tn r + fp r"
    by (rule gc_run_lists)
  have "\<forall>a b. ratio a b = (if b = 0 then None else Some (of_int a / of_int b))"
    by (simp add: ratio_def)
  moreover have "\<forall>p q. f1_score p q = None \<longleftrightarrow> p = None \<or> q = None \<or> the p + the q = 0"
    by (simp add: f1_score_None)
  moreover have "\<forall>p q. p + q \<noteq> 0 \<longrightarrow> f1_score (Some p) (Some q) = Some (2 * p * q / (p + q))"
    by (simp add: f1_score_def)
  ultimately show ?thesis using tot by (simp add: assms(2) derive_metrics_def)
qed

theorem derived_metrics_witness:
  "gc_run counter_rng edge_oracle 42 6 chain shortcut ''D'' =
     Inr \<lparr>tp = 0, tn = 5, fp = 1, fn = 0, d_separated_total = 0, d_connected_total = 6\<rparr> \<and>
   derive_metrics \<lparr>tp = 0, tn = 5, fp = 1, fn = 0, d_separated_total = 0, d_connected_total = 6\<rparr> =
     \<lparr>precision = Some 0, recall = None, F1 = None, TP_rate = None, TN_rate = Some (5 / 6),
      FP_rate = Some (1 / 6), FN_rate = None\<rparr>"
  using derived_metrics [OF chain_shortcut_run refl] chain_shortcut_run
  by (simp add: ratio_def f1_score_def)

text \<open>
  C9 as stated: when the predictor, the target or a member of the conditioning set is
  not a node of one of the graphs, the separation call fails with a lookup error and the
  run aborts. This fails for a target that is not a node of the true graph: the run
  aborts with the ValueError of \<^verbatim>\<open>predictors.remove(target)\<close> in line 67, before any
  trial, and no separation call is made (the call would have raised NodeNotFound).
\<close>

theorem missing_target_counterexample:
  "''y'' \<notin> set (nodes chain) \<and>
   edge_oracle chain {''A''} {''y''} {} = Inl NodeNotFound \<and>
   snd (gc_one_file counter_rng edge_oracle chain chain ''y'' ([] :: string list)) = Inl ValueError \<and>
   snd (gc_one_file counter_rng edge_oracle chain chain ''y'' ([] :: string list)) \<noteq> Inl NodeNotFound"
  by (simp add: gc_one_file_def gc_run_def py_remove_def edge_oracle_def chain_def)

text \<open>
  C9, amended. A target that is not a node of the true graph aborts the run with
  ValueError before the first trial. With the target in the true graph: when a trial,
  reached after \<open>j\<close> completed trials, samples a predictor, target and conditioning set
  of which one is not a node of the estimated graph, the separation call on the
  estimated graph raises NodeNotFound, the trial fails with it and so does the run: the
  trial is not skipped and no counter is derived. In every case the evaluation table is
  the one that was loaded. The libraries are assumed to keep their contracts: the
  random sources, and \<^verbatim>\<open>nx.d_separated\<close> answering on the true graph and raising
  NodeNotFound for a node that the estimated graph does not have.
\<close>

theorem unknown_node_aborts:
  assumes "rng_contract L" and "distinct (nodes g_true)"
    and "nx_answers nx g_true" and "nx_checks_nodes nx g_est"
  shows "(target \<notin> set (nodes g_true) \<longrightarrow>
       gc_run L nx seed mc g_true g_est target = Inl ValueError) \<and>
    (target \<in> set (nodes g_true) \<and> j < mc \<and>
     mc_loop L nx g_true g_est target (length (nodes g_true) - 1) j 0
       \<lparr>rng = seed_all L seed, predictors = remove1 target (sort (nodes g_true)),
        d_seps_true = [], d_seps_est = []\<rparr> = Inr st \<and>
     sample_trial L g_true target (length (nodes g_true) - 1) st = Inr (dr, st1) \<and>
     \<not> {node dr} \<union> {target} \<union> cond_set dr \<subseteq> set (nodes g_est) \<longrightarrow>
       trial L nx g_true g_est target (length (nodes g_true) - 1) st = Inl NodeNotFound \<and>
       gc_run L nx seed mc g_true g_est target = Inl NodeNotFound) \<and>
    gc_one_file L nx g_true g_est target table =
      (table, gc_run L nx 42 1000 g_true g_est target)"
proof (intro conjI impI)
  assume "target \<notin> set (nodes g_true)"
  then show "gc_run L nx seed mc g_true g_est target = Inl ValueError"
    by (simp add: gc_run_def py_remove_def)
next
  assume h: "target \<in> set (nodes g_true) \<and> j < mc \<and>
     mc_loop L nx g_true g_est target (length (nodes g_true) - 1) j 0
       \<lparr>rng = seed_all L seed, predictors = remove1 target (sort (nodes g_true)),
        d_seps_true = [], d_seps_est = []\<rparr> = Inr st \<and>
     sample_trial L g_true target (length (nodes g_true) - 1) st = Inr (dr, st1) \<and>
     \<not> {node dr} \<union> {target} \<union> cond_set dr \<subseteq> set (nodes g_est)"
  then have t: "target \<in> set (nodes g_true)" and j: "j < mc"
    and loop: "mc_loop L nx g_true g_est target (length (nodes g_true) - 1) j 0
       \<lparr>rng = seed_all L seed, predictors = remove1 target (sort (nodes g_true)),
        d_seps_true = [], d_seps_est = []\<rparr> = Inr st"
    and s: "sample_trial L g_true target (length (nodes g_true) - 1) st = Inr (dr, st1)"
    and u: "\<not> {node dr} \<union> {target} \<union> cond_set dr \<subseteq> set (nodes g_est)"
    by blast+
  show tr: "trial L nx g_true g_est target (length (nodes g_true) - 1) st = Inl NodeNotFound"
    by (rule trial_unknown_node [OF assms s u])
  show "gc_run L nx seed mc g_true g_est target = Inl NodeNotFound"
    by (rule gc_run_aborts [OF t j loop tr])
next
  show "gc_one_file L nx g_true g_est target table =
      (table, gc_run L nx 42 1000 g_true g_est target)"
    by (simp add: gc_one_file_def)
qed

theorem unknown_node_aborts_witness:
  "rng_contract counter_rng \<and> distinct (nodes chain) \<and> nx_answers edge_oracle chain \<and>
   nx_checks_nodes edge_oracle chain_without_B \<and>
   ''y'' \<notin> set (nodes chain) \<and>
   gc_run counter_rng edge_oracle 42 1000 chain chain_without_B ''y'' = Inl ValueError \<and>
   ''D'' \<in> set (nodes chain) \<and> (1::nat) < 1000 \<and>
   \<not> {''B''} \<union> {''D''} \<union> {''A'', ''C''} \<subseteq> set (nodes chain_without_B) \<and>
   trial counter_rng edge_oracle chain chain_without_B ''D'' (length (nodes chain) - 1)
     \<lparr>rng = 25, predictors = [''B'', ''C''], d_seps_true = [True], d_seps_est = [True]\<rparr> =
     Inl NodeNotFound \<and>
   gc_run counter_rng edge_oracle 42 1000 chain chain_without_B ''D'' = Inl NodeNotFound \<and>
   gc_one_file counter_rng edge_oracle chain chain_without_B ''D'' [''row''] =
     ([''row''], Inl NodeNotFound)"
proof -
  have d: "distinct (nodes chain)" and y: "''y'' \<notin> set (nodes chain)"
    and t: "''D'' \<in> set (nodes chain)"
    and u: "\<not> {''B''} \<union> {''D''} \<union> {''A'', ''C''} \<subseteq> set (nodes chain_without_B)"
    by (simp_all add: chain_def chain_without_B_def)
  note hyps = counter_rng_contract d edge_oracle_answers [of chain]
    edge_oracle_checks_nodes [of chain_without_B]
  from unknown_node_aborts [OF hyps, of "''y''" 42 1000 0] y
  have a: "gc_run counter_rng edge_oracle 42 1000 chain chain_without_B ''y'' = Inl ValueError"
    by blast
  from unknown_node_aborts [OF hyps, of "''D''" 42 1000 1
      "\<lparr>rng = 25, predictors = [''B'', ''C''], d_seps_true = [True], d_seps_est = [True]\<rparr>"
      "\<lparr>pool = [''A'', ''B'', ''C''], ind = 1, node = ''B'', deconfounders = [''A'', ''C''],
          card_drawn = 2, cond_set = {''A'', ''C''}\<rparr>"
      "\<lparr>rng = 50, predictors = [''A'', ''C''], d_seps_true = [True], d_seps_est = [True]\<rparr>"
      "[''row'']"]
    t u chain_first_trial chain_second_sample
  have b: "trial counter_rng edge_oracle chain chain_without_B ''D'' (length (nodes chain) - 1)
     \<lparr>rng = 25, predictors = [''B'', ''C''], d_seps_true = [True], d_seps_est = [True]\<rparr> =
     Inl NodeNotFound \<and>
   gc_run counter_rng edge_oracle 42 1000 chain chain_without_B ''D'' = Inl NodeNotFound \<and>
   gc_one_file counter_rng edge_oracle chain chain_without_B ''D'' [''row''] =
     ([''row''], Inl NodeNotFound)"
    by simp
  from hyps y a t u b show ?thesis by simp
qed

end
